theory Spec2Isabelle
  imports Complex_Main "HOL-Library.Word"
begin

section \<open>Conventions\<close>

text \<open>
  The notebooks compute with double-precision numbers; they are modelled here as
  \<^typ>\<open>real\<close>, so every statement about them is a statement of exact arithmetic and says
  nothing about rounding. Julia's \<open>Int\<close> is \<^typ>\<open>64 word\<close>. Arrays are lists; an index
  \<open>i\<close> of Julia (which counts from 1) is the list position \<open>i - 1\<close>. Exceptions raised by
  the language runtime or by a library are values of \<open>error\<close>.
\<close>

datatype error =
    BoundsError | DimensionMismatch | ArgumentError | DomainError
  | IndexError | ValueError | LinAlgError

section \<open>The mean squared error of a posterior (MCMC and UKF notebooks)\<close>



section \<open>The one-block simulation of the UKF notebook\<close>

text \<open>
  \<^verbatim>\<open>
  T_ = zeros(N + 1)
  T_a = 297.
  T_[1] = 255.
  real_\<theta> = 1 - \<Delta>t * h_a * A / (m * cp)
  for n = 1:N
      T_[n + 1] = real_\<theta> * T_[n] + (1 - real_\<theta>) * T_a
  end
  \<close>
  The loop variable \<open>n\<close> runs over \<open>1, \<dots>, N\<close>; Julia's \<open>T_[n + 1]\<close> is position \<open>n\<close> of the
  list and \<open>T_[n]\<close> is position \<open>n - 1\<close>. The transition coefficient and the number of steps
  are arguments of \<open>simulate\<close>; the script's values are the constants below, named with
  the notebook's tag because \<open>N\<close>, \<open>T_a\<close> and \<open>h_a\<close> are used again in the other notebooks.
\<close>

definition ukf_N :: nat where "ukf_N = 200"
definition ukf_\<Delta>t :: real where "ukf_\<Delta>t = 50"
definition ukf_m :: real where "ukf_m = 0.6"
definition ukf_cp :: real where "ukf_cp = 1500"
definition ukf_A :: real where "ukf_A = 0.05"
definition ukf_T_a :: real where "ukf_T_a = 297"
definition ukf_h_a :: real where "ukf_h_a = 10"

definition real_\<theta> :: real where
  "real_\<theta> = 1 - ukf_\<Delta>t * ukf_h_a * ukf_A / (ukf_m * ukf_cp)"

definition simulate :: "real \<Rightarrow> real \<Rightarrow> nat \<Rightarrow> real list" where
  "simulate \<theta> Ta N =
     foldl (\<lambda>Ts n. Ts[n := \<theta> * Ts ! (n - 1) + (1 - \<theta>) * Ta])
       ((replicate (N + 1) 0)[0 := 255]) [1..<N + 1]"

definition T_sim :: "real list" where
  "T_sim = simulate real_\<theta> ukf_T_a ukf_N"

section \<open>The right-hand side of the lumped thermal model (MCMC notebook)\<close>

text \<open>
  \<^verbatim>\<open>
  \<Phi>(B, \<omega>, t) = B * sin(\<omega> * t)

  function LSSM_lump(dT, T, p, t)
      mcp_1, mcp_2, mcp_3, A_1, A_2, A_3, B_1, B_2, B_3, \<omega>_1, \<omega>_2, \<omega>_3, T_a, k12, k23, h_a = p
      # Conduction
      dT[1] = k12 * (T[2] - T[1]) / mcp_1
      dT[2] = (k12 * (T[1] - T[2]) + k23 * (T[3] - T[2])) / mcp_2
      dT[3] = k23 * (T[2] - T[3]) / mcp_3
      # Convection
      dT[1] += h_a * A_1 * (T_a - T[1]) / mcp_1
      dT[2] += h_a * A_2 * (T_a - T[2]) / mcp_2
      dT[3] += h_a * A_3 * (T_a - T[3]) / mcp_3
      # Input
      dT[1] += \<Phi>(B_1, \<omega>_1, t) / mcp_1
      dT[2] += \<Phi>(B_2, \<omega>_2, t) / mcp_2
      dT[3] += \<Phi>(B_3, \<omega>_3, t) / mcp_3
  end
  \<close>
  The function writes its result into \<open>dT\<close>; the model takes the array \<open>dT\<close> as it is before
  the call and returns it as it is afterwards (the ODE solver passes an array \<open>dT\<close> that is
  not \<open>T\<close>). Destructuring a vector \<open>p\<close> of fewer than 16 entries, and reading or writing
  one of the first three entries of a shorter \<open>T\<close> or \<open>dT\<close>, is Julia's \<open>BoundsError\<close>; entries
  of \<open>p\<close> after the sixteenth are ignored.
\<close>

definition \<Phi> :: "real \<Rightarrow> real \<Rightarrow> real \<Rightarrow> real" where
  "\<Phi> B \<omega> t = B * sin (\<omega> * t)"


section \<open>Conjugate updating of a Beta prior (coin notebook)\<close>

text \<open>
  Julia's broadcast of a binary operation over two vectors: the lengths agree, or one of
  them is 1 and that element is repeated; any other pair of lengths is a
  \<open>DimensionMismatch\<close>. The result is a newly allocated vector.
\<close>

definition broadcast2 :: "('a \<Rightarrow> 'b \<Rightarrow> 'c) \<Rightarrow> 'a list \<Rightarrow> 'b list \<Rightarrow> error + 'c list" where
  "broadcast2 f xs ys =
     (if length xs = length ys then Inr (map2 f xs ys)
      else if length xs = 1 then Inr (map (f (hd xs)) ys)
      else if length ys = 1 then Inr (map (\<lambda>x. f x (hd ys)) xs)
      else Inl DimensionMismatch)"

text \<open>
  \<^verbatim>\<open>post_recursive(prior, y::Bool) = prior .+ [y, 1 - y]\<close>

  The notebook's priors are vectors of \<open>Int\<close> (\<open>prior_init = [1, 1]\<close>); the literal
  \<open>[y, 1 - y]\<close> is the \<open>Int\<close> vector of the truth value of \<open>y\<close> and of its complement.
\<close>

definition post_recursive :: "64 word list \<Rightarrow> bool \<Rightarrow> error + 64 word list" where
  "post_recursive prior y = broadcast2 (+) prior [of_bool y, 1 - of_bool y]"

text \<open>
  \<^verbatim>\<open>
  function make_gif_recursive(prior, data::Vector{Bool}, p_true)
      post = prior
      @gif for (n, y) in enumerate(data)
          post = post_recursive(post, y)
          plot(Beta(post[1], post[2]); ...)
          vline!([p_true])
      end
  end
  \<close>
  The model is the value of \<open>post\<close> when the loop ends: the filtering recursion, without the
  frames it draws.
\<close>

fun make_gif_recursive :: "64 word list \<Rightarrow> bool list \<Rightarrow> error + 64 word list" where
  "make_gif_recursive post [] = Inr post"
| "make_gif_recursive post (y # data) =
     (case post_recursive post y of
        Inl e \<Rightarrow> Inl e
      | Inr post' \<Rightarrow> make_gif_recursive post' data)"

text \<open>
  \<^verbatim>\<open>post_batch(prior, data::Vector{Bool}) = prior .+ [sum(data), length(data) - sum(data)]\<close>

  \<open>sum\<close> of a vector of \<open>Bool\<close> is the \<open>Int\<close> sum of its truth values.
\<close>

definition post_batch :: "64 word list \<Rightarrow> bool list \<Rightarrow> error + 64 word list" where
  "post_batch prior data =
     broadcast2 (+) prior
       [sum_list (map of_bool data), of_nat (length data) - sum_list (map of_bool data)]"

section \<open>Choosing an arm of the bandit (coin notebook)\<close>

text \<open>
  Julia's indexing \<open>xs[i]\<close>, with \<open>i\<close> counted from 1, and its \<open>BoundsError\<close>.
\<close>

definition getindex :: "'a list \<Rightarrow> nat \<Rightarrow> error + 'a" where
  "getindex xs i = (if 1 \<le> i \<and> i \<le> length xs then Inr (xs ! (i - 1)) else Inl BoundsError)"

text \<open>
  Julia's \<open>argmax\<close> of a vector: one pass from the left that keeps the largest value seen
  and its index, and replaces them only by a strictly larger value; an empty vector is an
  \<open>ArgumentError\<close>. In \<open>argmax_from best arm i xs\<close>, \<open>xs\<close> is what is left to scan and \<open>i\<close>
  the index of its first element.
\<close>

fun argmax_from :: "real \<Rightarrow> nat \<Rightarrow> nat \<Rightarrow> real list \<Rightarrow> nat" where
  "argmax_from best arm i [] = arm"
| "argmax_from best arm i (x # xs) =
     (if best < x then argmax_from x i (Suc i) xs else argmax_from best arm (Suc i) xs)"

definition argmax :: "real list \<Rightarrow> error + nat" where
  "argmax xs = (case xs of [] \<Rightarrow> Inl ArgumentError | x # rest \<Rightarrow> Inr (argmax_from x 1 2 rest))"

text \<open>A comprehension whose body may raise: the first exception ends it.\<close>

fun collect :: "(error + 'a) list \<Rightarrow> error + 'a list" where
  "collect [] = Inr []"
| "collect (Inl e # rs) = Inl e"
| "collect (Inr x # rs) = (case collect rs of Inl e \<Rightarrow> Inl e | Inr xs \<Rightarrow> Inr (x # xs))"

text \<open>
  \<^verbatim>\<open>
  function choose_arm(posts)
      dists = [Beta(post[1], post[2]) for post in posts]
      cred_int_tops = [quantile(dist, 0.975) for dist in dists]
      return argmax(cred_int_tops)[1]
  end
  \<close>
  \<open>Beta\<close> and \<open>quantile\<close> belong to the package Distributions.jl, which is not part of the
  repository: they are arguments of the model. \<open>Beta a b\<close> is the distribution object the
  package builds from the two parameters, or the exception of its argument check;
  \<open>quantile dist q\<close> is a real number. Indexing the integer that \<open>argmax\<close> returns with
  \<open>[1]\<close> gives that integer.
\<close>

definition dist_of ::
  "(64 word \<Rightarrow> 64 word \<Rightarrow> error + 'd) \<Rightarrow> 64 word list \<Rightarrow> error + 'd" where
  "dist_of Beta post =
     (case getindex post 1 of
        Inl e \<Rightarrow> Inl e
      | Inr a \<Rightarrow> (case getindex post 2 of Inl e \<Rightarrow> Inl e | Inr b \<Rightarrow> Beta a b))"

definition choose_arm ::
  "(64 word \<Rightarrow> 64 word \<Rightarrow> error + 'd) \<Rightarrow> ('d \<Rightarrow> real \<Rightarrow> real) \<Rightarrow> 64 word list list \<Rightarrow> error + nat" where
  "choose_arm Beta quantile posts =
     (case collect (map (dist_of Beta) posts) of
        Inl e \<Rightarrow> Inl e
      | Inr dists \<Rightarrow>
          let cred_int_tops = map (\<lambda>dist. quantile dist 0.975) dists
          in argmax cred_int_tops)"

section \<open>The bandit simulations and their arrays (coin notebook)\<close>

text \<open>
  \<open>priors\<close> is a vector of vectors: the outer array holds references to the inner arrays,
  so whether a call changes its argument depends on which arrays are shared. The store
  keeps the two kinds of array apart; an address is a position in the store. \<open>vecs\<close> holds
  the \<open>Vector{Int}\<close> objects and \<open>vecvecs\<close> the \<open>Vector{Vector{Int}}\<close> objects, each of them
  the list of the addresses (in \<open>vecs\<close>) of its elements.
\<close>

record heap =
  vecs :: "64 word list list"
  vecvecs :: "nat list list"

text \<open>The value of a vector of vectors: the list of the vectors it refers to.\<close>

definition deref :: "heap \<Rightarrow> nat \<Rightarrow> 64 word list list" where
  "deref h a = map (\<lambda>r. vecs h ! r) (vecvecs h ! a)"

text \<open>
  Julia's \<open>copy\<close> of an array is shallow: a new outer array, holding the same references.
  A broadcast allocates its result (\<open>new_vec\<close>). The assignment \<open>posts[arm] = r\<close> overwrites
  one reference of the outer array at address \<open>a\<close>.
\<close>

definition copy :: "heap \<Rightarrow> nat \<Rightarrow> nat \<times> heap" where
  "copy h a = (length (vecvecs h), h\<lparr>vecvecs := vecvecs h @ [vecvecs h ! a]\<rparr>)"

definition new_vec :: "heap \<Rightarrow> 64 word list \<Rightarrow> nat \<times> heap" where
  "new_vec h v = (length (vecs h), h\<lparr>vecs := vecs h @ [v]\<rparr>)"

definition setindex :: "heap \<Rightarrow> nat \<Rightarrow> nat \<Rightarrow> nat \<Rightarrow> heap" where
  "setindex h a i r = h\<lparr>vecvecs := (vecvecs h)[a := (vecvecs h ! a)[i - 1 := r]]\<rparr>"

text \<open>
  \<^verbatim>\<open>
  function explore_and_exploit(priors, true_ps, sample_size)
      posts = copy(priors)
      successes = 0
      for _ in 1:sample_size
          arm = choose_arm(posts)
          success = rand(Bernoulli(true_ps[arm]))
          posts[arm] = post_recursive(posts[arm], success)
          successes += success
      end
      return successes / sample_size
  end
  \<close>
  \<open>rand n p\<close> stands for the \<open>n\<close>-th evaluation of \<open>rand(Bernoulli(p))\<close> in the run: the
  outcome drawn, or the exception of the package's check of \<open>p\<close>. The three statements
  that pull an arm are the same in both simulations and are the function \<open>pull\<close>, which
  returns the outcome and the store. The quotient of two integers is a floating-point
  number, \<open>NaN\<close> for \<open>0 / 0\<close> (a sample size of 0); a negative sample size gives an empty
  loop.
\<close>

datatype gain = NaN | Gain real

definition pull ::
  "(64 word \<Rightarrow> 64 word \<Rightarrow> error + 'd) \<Rightarrow> ('d \<Rightarrow> real \<Rightarrow> real) \<Rightarrow> (nat \<Rightarrow> real \<Rightarrow> error + bool) \<Rightarrow>
   real list \<Rightarrow> nat \<Rightarrow> nat \<Rightarrow> heap \<Rightarrow> (error + bool) \<times> heap" where
  "pull Beta quantile rand true_ps posts n h =
     (case choose_arm Beta quantile (deref h posts) of
        Inl e \<Rightarrow> (Inl e, h)
      | Inr arm \<Rightarrow>
          (case getindex true_ps arm of
             Inl e \<Rightarrow> (Inl e, h)
           | Inr p \<Rightarrow>
               (case rand n p of
                  Inl e \<Rightarrow> (Inl e, h)
                | Inr success \<Rightarrow>
                    (case getindex (vecvecs h ! posts) arm of
                       Inl e \<Rightarrow> (Inl e, h)
                     | Inr r \<Rightarrow>
                         (case post_recursive (vecs h ! r) success of
                            Inl e \<Rightarrow> (Inl e, h)
                          | Inr v \<Rightarrow>
                              (let (r', h') = new_vec h v
                               in (Inr success, setindex h' posts arm r')))))))"

fun explore_loop ::
  "(64 word \<Rightarrow> 64 word \<Rightarrow> error + 'd) \<Rightarrow> ('d \<Rightarrow> real \<Rightarrow> real) \<Rightarrow> (nat \<Rightarrow> real \<Rightarrow> error + bool) \<Rightarrow>
   real list \<Rightarrow> nat \<Rightarrow> nat \<Rightarrow> nat \<Rightarrow> 64 word \<Rightarrow> heap \<Rightarrow> (error + 64 word) \<times> heap" where
  "explore_loop Beta quantile rand true_ps posts 0 n successes h = (Inr successes, h)"
| "explore_loop Beta quantile rand true_ps posts (Suc k) n successes h =
     (case pull Beta quantile rand true_ps posts n h of
        (Inl e, h') \<Rightarrow> (Inl e, h')
      | (Inr success, h') \<Rightarrow>
          explore_loop Beta quantile rand true_ps posts k (Suc n) (successes + of_bool success) h')"

definition explore_and_exploit ::
  "(64 word \<Rightarrow> 64 word \<Rightarrow> error + 'd) \<Rightarrow> ('d \<Rightarrow> real \<Rightarrow> real) \<Rightarrow> (nat \<Rightarrow> real \<Rightarrow> error + bool) \<Rightarrow>
   heap \<Rightarrow> nat \<Rightarrow> real list \<Rightarrow> int \<Rightarrow> (error + gain) \<times> heap" where
  "explore_and_exploit Beta quantile rand h priors true_ps sample_size =
     (let (posts, h0) = copy h priors
      in case explore_loop Beta quantile rand true_ps posts (nat sample_size) 1 0 h0 of
           (Inl e, h') \<Rightarrow> (Inl e, h')
         | (Inr successes, h') \<Rightarrow>
             (Inr (if sample_size = 0 then NaN
                   else Gain (real_of_int (sint successes) / real_of_int sample_size)), h'))"

text \<open>
  \<^verbatim>\<open>
  function plot_posts(posts, true_ps, n)
      c_arms = size(posts)[1]
      dists = [Beta(post[1], post[2]) for post in posts]
      means = mean.(dists)
      ptops = quantile.(dists, 0.975)
      pbots = quantile.(dists, 0.025)
      dist_plot = scatter(1:c_arms, means, ...)
      scatter!(dist_plot, 1:c_arms, true_ps, label = "True p")
      for arm in 1:c_arms
          ls = LineSegment([arm, pbots[arm]], [arm, ptops[arm]])
          plot!(dist_plot, ls, linecolor = "black", ylim = (0, 1))
      end
  end

  function explore_and_exploit_plot(priors, true_ps, sample_size)
      posts = copy(priors)
      @gif for n in 1:sample_size
          arm = choose_arm(posts)
          success = rand(Bernoulli(true_ps[arm]))
          posts[arm] = post_recursive(posts[arm], success)
          plot_posts(posts, true_ps, n)
      end
  end
  \<close>
  \<open>plot_posts\<close> reads \<open>posts\<close> and assigns to none of its arrays. What it does after
  building the distributions (the statistics and the drawing, all of them calls of
  packages) is the argument \<open>draw\<close>, which returns or raises.
\<close>

definition plot_posts ::
  "(64 word \<Rightarrow> 64 word \<Rightarrow> error + 'd) \<Rightarrow> ('d list \<Rightarrow> real list \<Rightarrow> nat \<Rightarrow> error + unit) \<Rightarrow>
   64 word list list \<Rightarrow> real list \<Rightarrow> nat \<Rightarrow> error + unit" where
  "plot_posts Beta draw posts true_ps n =
     (case collect (map (dist_of Beta) posts) of
        Inl e \<Rightarrow> Inl e
      | Inr dists \<Rightarrow> draw dists true_ps n)"

fun plot_loop ::
  "(64 word \<Rightarrow> 64 word \<Rightarrow> error + 'd) \<Rightarrow> ('d \<Rightarrow> real \<Rightarrow> real) \<Rightarrow> (nat \<Rightarrow> real \<Rightarrow> error + bool) \<Rightarrow>
   ('d list \<Rightarrow> real list \<Rightarrow> nat \<Rightarrow> error + unit) \<Rightarrow>
   real list \<Rightarrow> nat \<Rightarrow> nat \<Rightarrow> nat \<Rightarrow> heap \<Rightarrow> (error + unit) \<times> heap" where
  "plot_loop Beta quantile rand draw true_ps posts 0 n h = (Inr (), h)"
| "plot_loop Beta quantile rand draw true_ps posts (Suc k) n h =
     (case pull Beta quantile rand true_ps posts n h of
        (Inl e, h') \<Rightarrow> (Inl e, h')
      | (Inr success, h') \<Rightarrow>
          (case plot_posts Beta draw (deref h' posts) true_ps n of
             Inl e \<Rightarrow> (Inl e, h')
           | Inr u \<Rightarrow> plot_loop Beta quantile rand draw true_ps posts k (Suc n) h'))"

definition explore_and_exploit_plot ::
  "(64 word \<Rightarrow> 64 word \<Rightarrow> error + 'd) \<Rightarrow> ('d \<Rightarrow> real \<Rightarrow> real) \<Rightarrow> (nat \<Rightarrow> real \<Rightarrow> error + bool) \<Rightarrow>
   ('d list \<Rightarrow> real list \<Rightarrow> nat \<Rightarrow> error + unit) \<Rightarrow>
   heap \<Rightarrow> nat \<Rightarrow> real list \<Rightarrow> int \<Rightarrow> (error + unit) \<times> heap" where
  "explore_and_exploit_plot Beta quantile rand draw h priors true_ps sample_size =
     (let (posts, h0) = copy h priors
      in plot_loop Beta quantile rand draw true_ps posts (nat sample_size) 1 h0)"

text \<open>
  What a run can do to the store when \<open>posts\<close> is the address of its working copy:
  allocate vectors, and overwrite references of the outer array at \<open>posts\<close>.
\<close>

definition frame :: "nat \<Rightarrow> heap \<Rightarrow> heap \<Rightarrow> bool" where
  "frame posts h h' \<longleftrightarrow>
     (\<exists>new. vecs h' = vecs h @ new) \<and> length (vecvecs h') = length (vecvecs h) \<and>
     (\<forall>a. a \<noteq> posts \<longrightarrow> vecvecs h' ! a = vecvecs h ! a)"

section \<open>Vectors and matrices of the VB notebook (NumPy)\<close>
















section \<open>The transition matrices and the point estimates (VB notebook)\<close>






definition vb_std_noise_y :: real where "vb_std_noise_y = 1"








section \<open>The synthetic data of the VB notebook\<close>






section \<open>Properties of the mean squared error\<close>



section \<open>The simulated temperature equilibrates\<close>









section \<open>The right-hand side is the stated lumped model\<close>


section \<open>Batch and recursive updating coincide\<close>

lemma sum_of_bool: "(sum_list (map of_bool data) :: 64 word) = of_nat (length (filter (\<lambda>y. y) data))"
  by (induction data) simp_all

lemma count_false: "(of_nat (length data) :: 64 word) - of_nat (length (filter (\<lambda>y. y) data))
    = of_nat (length (filter Not data))"
proof -
  have "length data = length (filter (\<lambda>y. y) data) + length (filter Not data)"
    using sum_length_filter_compl [of "\<lambda>y. y" data] by (simp add: comp_def)
  then have "(of_nat (length data) :: 64 word)
     = of_nat (length (filter (\<lambda>y. y) data)) + of_nat (length (filter Not data))"
    by (metis of_nat_add)
  then show ?thesis by simp
qed

lemma post_batch_pair:
  "post_batch [\<alpha>, \<beta>] data =
     Inr [\<alpha> + of_nat (length (filter (\<lambda>y. y) data)), \<beta> + of_nat (length (filter Not data))]"
  by (simp add: post_batch_def broadcast2_def sum_of_bool count_false)

lemma post_recursive_pair:
  "post_recursive [\<alpha>, \<beta>] y = Inr [\<alpha> + of_bool y, \<beta> + (1 - of_bool y)]"
  by (simp add: post_recursive_def broadcast2_def)

lemma recursive_pair:
  "make_gif_recursive [\<alpha>, \<beta>] data =
     Inr [\<alpha> + of_nat (length (filter (\<lambda>y. y) data)), \<beta> + of_nat (length (filter Not data))]"
  by (induction data arbitrary: \<alpha> \<beta>) (simp_all add: post_recursive_pair)

lemma fold_is_loop:
  "foldl (\<lambda>acc y. case acc of Inl e \<Rightarrow> Inl e | Inr post \<Rightarrow> post_recursive post y) acc data =
     (case acc of Inl e \<Rightarrow> Inl e | Inr post \<Rightarrow> make_gif_recursive post data)"
  by (induction data arbitrary: acc) (simp_all split: sum.splits)

text \<open>
  Claim C8. For every prior pair \<open>[\<alpha>, \<beta>]\<close> and every list of Boolean observations,
  \<open>post_batch\<close> returns what the left fold of \<open>post_recursive\<close> over the observations returns
  from the same prior, which is also what the filtering loop of \<open>make_gif_recursive\<close> ends
  with; the common result is \<open>[\<alpha> + t, \<beta> + f]\<close>, with \<open>t\<close> the number of true and \<open>f\<close> the
  number of false observations (the sums are those of Julia's \<open>Int\<close>).
\<close>

theorem batch_is_recursive:
  "post_batch [\<alpha>, \<beta>] data =
     foldl (\<lambda>acc y. case acc of Inl e \<Rightarrow> Inl e | Inr post \<Rightarrow> post_recursive post y)
       (Inr [\<alpha>, \<beta>]) data \<and>
   post_batch [\<alpha>, \<beta>] data = make_gif_recursive [\<alpha>, \<beta>] data \<and>
   post_batch [\<alpha>, \<beta>] data =
     Inr [\<alpha> + of_nat (length (filter (\<lambda>y. y) data)), \<beta> + of_nat (length (filter Not data))]"
  by (simp add: fold_is_loop recursive_pair post_batch_pair)

section \<open>The chosen arm is the first maximal one\<close>

lemma argmax_from_first_max:
  assumes "i = Suc (length pre)" "1 \<le> arm" "arm \<le> length pre" "pre ! (arm - 1) = best"
    and "\<forall>j<length pre. pre ! j \<le> best" "\<forall>j<arm - 1. pre ! j < best"
  shows "1 \<le> argmax_from best arm i xs \<and> argmax_from best arm i xs \<le> length (pre @ xs) \<and>
     (\<forall>j<length (pre @ xs). (pre @ xs) ! j \<le> (pre @ xs) ! (argmax_from best arm i xs - 1)) \<and>
     (\<forall>j<argmax_from best arm i xs - 1. (pre @ xs) ! j < (pre @ xs) ! (argmax_from best arm i xs - 1))"
  using assms
proof (induction xs arbitrary: pre best arm i)
  case Nil
  then show ?case by simp
next
  case (Cons x xs)
  show ?case
  proof (cases "best < x")
    case True
    have "1 \<le> argmax_from x i (Suc i) xs \<and> argmax_from x i (Suc i) xs \<le> length ((pre @ [x]) @ xs) \<and>
     (\<forall>j<length ((pre @ [x]) @ xs). ((pre @ [x]) @ xs) ! j \<le> ((pre @ [x]) @ xs) ! (argmax_from x i (Suc i) xs - 1)) \<and>
     (\<forall>j<argmax_from x i (Suc i) xs - 1. ((pre @ [x]) @ xs) ! j < ((pre @ [x]) @ xs) ! (argmax_from x i (Suc i) xs - 1))"
    proof (rule Cons.IH)
      show "Suc i = Suc (length (pre @ [x]))" using Cons.prems by simp
      show "1 \<le> i" using Cons.prems by simp
      show "i \<le> length (pre @ [x])" using Cons.prems by simp
      show "(pre @ [x]) ! (i - 1) = x" using Cons.prems by simp
      show "\<forall>j<length (pre @ [x]). (pre @ [x]) ! j \<le> x"
      proof (intro allI impI)
        fix j assume "j < length (pre @ [x])"
        then consider "j < length pre" | "j = length pre" by fastforce
        then show "(pre @ [x]) ! j \<le> x"
        proof cases
          case 1
          with Cons.prems(5) have "pre ! j \<le> best" by simp
          with True 1 show ?thesis by (simp add: nth_append)
        next
          case 2
          then show ?thesis by simp
        qed
      qed
      show "\<forall>j<i - 1. (pre @ [x]) ! j < x"
      proof (intro allI impI)
        fix j assume "j < i - 1"
        with Cons.prems(1) have j: "j < length pre" by simp
        with Cons.prems(5) have "pre ! j \<le> best" by simp
        with True j show "(pre @ [x]) ! j < x" by (simp add: nth_append)
      qed
    qed
    with True show ?thesis by simp
  next
    case False
    have "1 \<le> argmax_from best arm (Suc i) xs \<and> argmax_from best arm (Suc i) xs \<le> length ((pre @ [x]) @ xs) \<and>
     (\<forall>j<length ((pre @ [x]) @ xs). ((pre @ [x]) @ xs) ! j \<le> ((pre @ [x]) @ xs) ! (argmax_from best arm (Suc i) xs - 1)) \<and>
     (\<forall>j<argmax_from best arm (Suc i) xs - 1. ((pre @ [x]) @ xs) ! j < ((pre @ [x]) @ xs) ! (argmax_from best arm (Suc i) xs - 1))"
    proof (rule Cons.IH)
      show "Suc i = Suc (length (pre @ [x]))" using Cons.prems by simp
      show "1 \<le> arm" using Cons.prems by simp
      show "arm \<le> length (pre @ [x])" using Cons.prems by simp
      have "arm - 1 < length pre" using Cons.prems by simp
      then show "(pre @ [x]) ! (arm - 1) = best" using Cons.prems by (simp add: nth_append)
      show "\<forall>j<length (pre @ [x]). (pre @ [x]) ! j \<le> best"
        using Cons.prems(5) False by (auto simp: nth_append less_Suc_eq)
      show "\<forall>j<arm - 1. (pre @ [x]) ! j < best"
      proof (intro allI impI)
        fix j assume j: "j < arm - 1"
        with Cons.prems(3) have "j < length pre" by simp
        with j Cons.prems(6) show "(pre @ [x]) ! j < best" by (simp add: nth_append)
      qed
    qed
    with False show ?thesis by simp
  qed
qed

lemma argmax_first_max:
  assumes "xs \<noteq> []"
  shows "\<exists>arm. argmax xs = Inr arm \<and> 1 \<le> arm \<and> arm \<le> length xs \<and>
     (\<forall>j<length xs. xs ! j \<le> xs ! (arm - 1)) \<and> (\<forall>j<arm - 1. xs ! j < xs ! (arm - 1))"
proof -
  from assms obtain x rest where xs: "xs = x # rest" by (cases xs) auto
  have "1 \<le> argmax_from x 1 2 rest \<and> argmax_from x 1 2 rest \<le> length ([x] @ rest) \<and>
     (\<forall>j<length ([x] @ rest). ([x] @ rest) ! j \<le> ([x] @ rest) ! (argmax_from x 1 2 rest - 1)) \<and>
     (\<forall>j<argmax_from x 1 2 rest - 1. ([x] @ rest) ! j < ([x] @ rest) ! (argmax_from x 1 2 rest - 1))"
    by (rule argmax_from_first_max) simp_all
  then show ?thesis by (simp add: xs argmax_def)
qed


lemma collect_map:
  "length ds = length xs \<Longrightarrow> \<forall>i<length xs. f (xs ! i) = Inr (ds ! i) \<Longrightarrow>
   collect (map f xs) = Inr ds"
proof (induction xs arbitrary: ds)
  case Nil
  then show ?case by simp
next
  case (Cons x xs)
  then obtain d ds' where ds: "ds = d # ds'" by (cases ds) auto
  from Cons.prems(2) have hd: "f x = Inr d" by (auto simp: ds)
  have "\<forall>i<length xs. f (xs ! i) = Inr (ds' ! i)"
  proof (intro allI impI)
    fix i assume "i < length xs"
    with Cons.prems(2) [rule_format, of "Suc i"] show "f (xs ! i) = Inr (ds' ! i)"
      by (simp add: ds)
  qed
  with Cons.IH [of ds'] Cons.prems(1) have "collect (map f xs) = Inr ds'" by (simp add: ds)
  with hd show ?case by (simp add: ds)
qed

text \<open>
  Claim C10. For every non-empty list of posterior parameter pairs (each accepted by the
  package as the parameters of a Beta distribution), \<open>choose_arm\<close> returns an arm between 1
  and the number of arms whose 97.5% quantile is maximal, and every arm before it has a
  strictly smaller quantile: it is the first maximal arm, so a tie is resolved to the
  smallest index and the result is a function of the posteriors alone.
\<close>

theorem choose_arm_first_max:
  assumes "posts \<noteq> []"
    and "length dists = length posts"
    and "\<forall>i<length posts. 2 \<le> length (posts ! i) \<and>
           Beta (posts ! i ! 0) (posts ! i ! 1) = Inr (dists ! i)"
  shows "\<exists>arm. choose_arm Beta quantile posts = Inr arm \<and> 1 \<le> arm \<and> arm \<le> length posts \<and>
     (\<forall>j<length posts. quantile (dists ! j) 0.975 \<le> quantile (dists ! (arm - 1)) 0.975) \<and>
     (\<forall>j<arm - 1. quantile (dists ! j) 0.975 < quantile (dists ! (arm - 1)) 0.975)"
proof -
  let ?f = "dist_of Beta"
  let ?tops = "map (\<lambda>dist. quantile dist 0.975) dists"
  have "\<forall>i<length posts. ?f (posts ! i) = Inr (dists ! i)"
    using assms(3) by (auto simp: dist_of_def getindex_def numeral_2_eq_2)
  with assms(2) have dists: "collect (map ?f posts) = Inr dists"
    by (rule collect_map)
  from assms(1,2) have "?tops \<noteq> []" by auto
  from argmax_first_max [OF this] obtain arm where arm: "argmax ?tops = Inr arm" "1 \<le> arm"
    "arm \<le> length ?tops" "\<forall>j<length ?tops. ?tops ! j \<le> ?tops ! (arm - 1)"
    "\<forall>j<arm - 1. ?tops ! j < ?tops ! (arm - 1)"
    by blast
  have run: "choose_arm Beta quantile posts = Inr arm"
    using dists arm(1) by (simp add: choose_arm_def)
  have le: "quantile (dists ! j) 0.975 \<le> quantile (dists ! (arm - 1)) 0.975" if "j < length posts" for j
    using arm(4) [rule_format, of j] that arm(2,3) assms(2) by simp
  have lt: "quantile (dists ! j) 0.975 < quantile (dists ! (arm - 1)) 0.975" if "j < arm - 1" for j
    using arm(5) [rule_format, of j] that arm(2,3) assms(2) by simp
  from run arm(2,3) assms(2) le lt show ?thesis by auto
qed

theorem choose_arm_first_max_witness:
  "[[1, 1], [2, 1], [2, 5 :: 64 word]] \<noteq> [] \<and>
   choose_arm (\<lambda>a b. Inr (a, b)) (\<lambda>d p. real (unat (fst d))) [[1, 1], [2, 1], [2, 5]] = Inr 2"
proof -
  let ?posts = "[[1, 1], [2, 1], [2, 5 :: 64 word]]"
  let ?dists = "[(1, 1), (2, 1), (2, 5 :: 64 word)]"
  let ?Beta = "\<lambda>a b. Inr (a, b) :: error + 64 word \<times> 64 word"
  let ?q = "\<lambda>(d :: 64 word \<times> 64 word) (p :: real). real (unat (fst d))"
  have h1: "?posts \<noteq> []" by simp
  have h2: "length ?dists = length ?posts" by simp
  have h3: "\<forall>i<length ?posts. 2 \<le> length (?posts ! i) \<and>
           ?Beta (?posts ! i ! 0) (?posts ! i ! 1) = Inr (?dists ! i)"
    by (simp add: less_Suc_eq numeral_3_eq_3)
  from choose_arm_first_max [OF h1 h2 h3, of ?q]
  obtain arm where arm: "choose_arm ?Beta ?q ?posts = Inr arm" by blast
  moreover have "choose_arm ?Beta ?q ?posts = Inr 2"
    by (simp add: choose_arm_def dist_of_def getindex_def argmax_def)
  ultimately show ?thesis by simp
qed

section \<open>The simulations leave their priors argument as it was\<close>

lemma frame_refl: "frame posts h h"
  by (simp add: frame_def)

lemma frame_trans:
  assumes "frame posts h h'" "frame posts h' h''"
  shows "frame posts h h''"
proof -
  from assms obtain new new' where "vecs h' = vecs h @ new" "vecs h'' = vecs h' @ new'"
    by (auto simp: frame_def)
  then have "vecs h'' = vecs h @ (new @ new')" by simp
  then have "\<exists>new. vecs h'' = vecs h @ new" ..
  with assms show ?thesis by (simp add: frame_def)
qed

lemma frame_step: "frame posts h (setindex (snd (new_vec h v)) posts arm r)"
  by (simp add: frame_def setindex_def new_vec_def)

lemma pull_cases:
  "snd (pull Beta quantile rand true_ps posts n h) = h \<or>
   (\<exists>v arm. snd (pull Beta quantile rand true_ps posts n h)
       = setindex (snd (new_vec h v)) posts arm (fst (new_vec h v)))"
  by (simp add: pull_def split: sum.splits prod.splits) (metis fst_conv snd_conv)

lemma pull_frame: "frame posts h (snd (pull Beta quantile rand true_ps posts n h))"
  using pull_cases [of Beta quantile rand true_ps posts n h] frame_refl frame_step
  by metis


lemma explore_loop_frame:
  "frame posts h (snd (explore_loop Beta quantile rand true_ps posts k n successes h))"
proof (induction k arbitrary: n successes h)
  case 0
  show ?case by (simp add: frame_refl)
next
  case (Suc k)
  obtain res h' where p: "pull Beta quantile rand true_ps posts n h = (res, h')"
    by (cases "pull Beta quantile rand true_ps posts n h")
  with pull_frame [of posts h Beta quantile rand true_ps n] have f: "frame posts h h'" by simp
  show ?case
  proof (cases res)
    case (Inl e)
    with p f show ?thesis by simp
  next
    case (Inr success)
    with p have "snd (explore_loop Beta quantile rand true_ps posts (Suc k) n successes h)
        = snd (explore_loop Beta quantile rand true_ps posts k (Suc n) (successes + of_bool success) h')"
      by simp
    with frame_trans [OF f Suc.IH] show ?thesis by simp
  qed
qed

lemma plot_loop_frame:
  "frame posts h (snd (plot_loop Beta quantile rand draw true_ps posts k n h))"
proof (induction k arbitrary: n h)
  case 0
  show ?case by (simp add: frame_refl)
next
  case (Suc k)
  obtain res h' where p: "pull Beta quantile rand true_ps posts n h = (res, h')"
    by (cases "pull Beta quantile rand true_ps posts n h")
  with pull_frame [of posts h Beta quantile rand true_ps n] have f: "frame posts h h'" by simp
  show ?case
  proof (cases res)
    case (Inl e)
    with p f show ?thesis by simp
  next
    case (Inr success)
    show ?thesis
    proof (cases "plot_posts Beta draw (deref h' posts) true_ps n")
      case (Inl e)
      with p Inr f show ?thesis by simp
    next
      case (Inr u)
      with p \<open>res = Inr success\<close> have "snd (plot_loop Beta quantile rand draw true_ps posts (Suc k) n h)
        = snd (plot_loop Beta quantile rand draw true_ps posts k (Suc n) h')"
        by simp
      with frame_trans [OF f Suc.IH] show ?thesis by simp
    qed
  qed
qed

lemma frame_after_copy:
  assumes "frame (length (vecvecs h)) (snd (copy h priors)) h'"
  shows "(\<forall>a<length (vecvecs h). vecvecs h' ! a = vecvecs h ! a) \<and>
     (\<forall>r<length (vecs h). vecs h' ! r = vecs h ! r) \<and>
     (priors < length (vecvecs h) \<and> (\<forall>r\<in>set (vecvecs h ! priors). r < length (vecs h))
        \<longrightarrow> deref h' priors = deref h priors)"
proof -
  from assms obtain new where new: "vecs h' = vecs h @ new"
    and same: "\<And>a. a \<noteq> length (vecvecs h) \<Longrightarrow> vecvecs h' ! a = (vecvecs h @ [vecvecs h ! priors]) ! a"
    by (auto simp: frame_def copy_def)
  have outer: "vecvecs h' ! a = vecvecs h ! a" if "a < length (vecvecs h)" for a
    using same [of a] that by (simp add: nth_append)
  have inner: "vecs h' ! r = vecs h ! r" if "r < length (vecs h)" for r
    using that by (simp add: new nth_append)
  have "deref h' priors = deref h priors"
    if p: "priors < length (vecvecs h)" and r: "\<forall>r\<in>set (vecvecs h ! priors). r < length (vecs h)"
  proof -
    from p have o: "vecvecs h' ! priors = vecvecs h ! priors" by (rule outer)
    have "map (\<lambda>r. vecs h' ! r) (vecvecs h ! priors) = map (\<lambda>r. vecs h ! r) (vecvecs h ! priors)"
    proof (rule map_cong [OF refl])
      fix x assume "x \<in> set (vecvecs h ! priors)"
      with r have "x < length (vecs h)" by blast
      then show "vecs h' ! x = vecs h ! x" by (rule inner)
    qed
    then show ?thesis unfolding deref_def o .
  qed
  with outer inner show ?thesis by blast
qed

text \<open>
  Claim C6. For every store, every list of priors, every vector of true success
  probabilities and every sample size, and whether the call returns or raises: after
  \<open>explore_and_exploit\<close>, and likewise after \<open>explore_and_exploit_plot\<close>, every array that
  existed before the call holds what it held before; in particular the value of the
  \<open>priors\<close> argument (an outer array of the store whose references point into the store)
  is its value before the call. The updates go to the shallow copy, and each posterior
  update is a newly allocated vector.
\<close>

theorem explore_and_exploit_frame:
  assumes "h' = snd (explore_and_exploit Beta quantile rand h priors true_ps sample_size) \<or>
           h' = snd (explore_and_exploit_plot Beta quantile rand draw h priors true_ps sample_size)"
  shows "(\<forall>a<length (vecvecs h). vecvecs h' ! a = vecvecs h ! a) \<and>
     (\<forall>r<length (vecs h). vecs h' ! r = vecs h ! r) \<and>
     (priors < length (vecvecs h) \<and> (\<forall>r\<in>set (vecvecs h ! priors). r < length (vecs h))
        \<longrightarrow> deref h' priors = deref h priors)"
proof (rule frame_after_copy)
  let ?posts = "length (vecvecs h)"
  let ?h0 = "snd (copy h priors)"
  have c: "copy h priors = (?posts, h\<lparr>vecvecs := vecvecs h @ [vecvecs h ! priors]\<rparr>)"
    and h0: "?h0 = h\<lparr>vecvecs := vecvecs h @ [vecvecs h ! priors]\<rparr>"
    by (simp_all add: copy_def)
  from assms show "frame ?posts ?h0 h'"
  proof
    assume "h' = snd (explore_and_exploit Beta quantile rand h priors true_ps sample_size)"
    then have "h' = snd (explore_loop Beta quantile rand true_ps ?posts (nat sample_size) 1 0 ?h0)"
      unfolding h0 by (simp add: explore_and_exploit_def c split: prod.splits sum.splits)
    then show ?thesis by (simp add: explore_loop_frame)
  next
    assume "h' = snd (explore_and_exploit_plot Beta quantile rand draw h priors true_ps sample_size)"
    then have "h' = snd (plot_loop Beta quantile rand draw true_ps ?posts (nat sample_size) 1 ?h0)"
      unfolding h0 by (simp add: explore_and_exploit_plot_def c)
    then show ?thesis by (simp add: plot_loop_frame)
  qed
qed


lemma explore_loop_numeral:
  "explore_loop Beta quantile rand true_ps posts (numeral k) n successes h =
   explore_loop Beta quantile rand true_ps posts (Suc (pred_numeral k)) n successes h"
  by (simp add: numeral_eq_Suc)

lemma plot_loop_numeral:
  "plot_loop Beta quantile rand draw true_ps posts (numeral k) n h =
   plot_loop Beta quantile rand draw true_ps posts (Suc (pred_numeral k)) n h"
  by (simp add: numeral_eq_Suc)

lemma run_ex:
  "explore_and_exploit (\<lambda>a b. Inr (a, b)) (\<lambda>d p. real (unat (fst d))) (\<lambda>n p. Inr True)
      \<lparr>vecs = [[1, 1], [1, 1]], vecvecs = [[0, 1]]\<rparr> 0 [1 / 2, 1 / 2] 2
   = (Inr (Gain 1), \<lparr>vecs = [[1, 1], [1, 1], [2, 1], [3, 1]], vecvecs = [[0, 1], [3, 1]]\<rparr>)"
  by (simp add: explore_and_exploit_def copy_def explore_loop_numeral pull_def deref_def choose_arm_def
      dist_of_def getindex_def argmax_def post_recursive_def broadcast2_def new_vec_def setindex_def)

lemma run_plot_ex:
  "explore_and_exploit_plot (\<lambda>a b. Inr (a, b)) (\<lambda>d p. real (unat (fst d))) (\<lambda>n p. Inr True)
      (\<lambda>ds ps n. Inr ())
      \<lparr>vecs = [[1, 1], [1, 1]], vecvecs = [[0, 1]]\<rparr> 0 [1 / 2, 1 / 2] 2
   = (Inr (), \<lparr>vecs = [[1, 1], [1, 1], [2, 1], [3, 1]], vecvecs = [[0, 1], [3, 1]]\<rparr>)"
  by (simp add: explore_and_exploit_plot_def copy_def plot_loop_numeral pull_def deref_def choose_arm_def
      dist_of_def getindex_def argmax_def post_recursive_def broadcast2_def new_vec_def setindex_def
      plot_posts_def)


theorem explore_and_exploit_frame_witness:
  "explore_and_exploit (\<lambda>a b. Inr (a, b)) (\<lambda>d p. real (unat (fst d))) (\<lambda>n p. Inr True)
      \<lparr>vecs = [[1, 1], [1, 1]], vecvecs = [[0, 1]]\<rparr> 0 [1 / 2, 1 / 2] 2
     = (Inr (Gain 1), \<lparr>vecs = [[1, 1], [1, 1], [2, 1], [3, 1]], vecvecs = [[0, 1], [3, 1]]\<rparr>) \<and>
   deref \<lparr>vecs = [[1, 1], [1, 1], [2, 1], [3, 1]], vecvecs = [[0, 1], [3, 1]]\<rparr> 0
     = deref \<lparr>vecs = [[1, 1], [1, 1]], vecvecs = [[0, 1]]\<rparr> 0 \<and>
   deref \<lparr>vecs = [[1, 1], [1, 1]], vecvecs = [[0, 1]]\<rparr> 0 = [[1, 1], [1, 1]] \<and>
   deref \<lparr>vecs = [[1, 1], [1, 1], [2, 1], [3, 1]], vecvecs = [[0, 1], [3, 1]]\<rparr> 1 = [[3, 1], [1, 1]]"
proof -
  let ?h = "\<lparr>vecs = [[1, 1], [1, 1 :: 64 word]], vecvecs = [[0, 1 :: nat]]\<rparr>"
  let ?h' = "\<lparr>vecs = [[1, 1], [1, 1], [2, 1], [3, 1 :: 64 word]], vecvecs = [[0, 1], [3, 1 :: nat]]\<rparr>"
  let ?Beta = "\<lambda>a b. Inr (a, b) :: error + 64 word \<times> 64 word"
  let ?q = "\<lambda>(d :: 64 word \<times> 64 word) (p :: real). real (unat (fst d))"
  let ?rand = "\<lambda>(n :: nat) (p :: real). Inr True :: error + bool"
  have run: "?h' = snd (explore_and_exploit ?Beta ?q ?rand ?h 0 [1 / 2, 1 / 2] 2) \<or>
      ?h' = snd (explore_and_exploit_plot ?Beta ?q ?rand (\<lambda>ds ps n. Inr ()) ?h 0 [1 / 2, 1 / 2] 2)"
    by (rule disjI1, subst run_ex) simp
  have wf: "0 < length (vecvecs ?h) \<and> (\<forall>r\<in>set (vecvecs ?h ! 0). r < length (vecs ?h))"
    by simp
  from explore_and_exploit_frame [OF run] wf
  have "deref ?h' 0 = deref ?h 0" by blast
  moreover note run_ex
  moreover have "deref ?h 0 = [[1, 1], [1, 1]]" "deref ?h' 1 = [[3, 1], [1, 1]]"
    by (simp_all add: deref_def)
  ultimately show ?thesis by blast
qed

section \<open>The back-transformation inverts the discretization\<close>



















section \<open>The transition matrices conserve heat and fix uniform temperatures\<close>



section \<open>Matrix powers and iterated application\<close>













section \<open>The generated data satisfy the state-space equations\<close>






end
